theory Spec2Isabelle
  imports Main "HOL-Library.Word"
begin

unbundle bit_operations_syntax

section \<open>The heap source\<close>

text \<open>
  Both allocators obtain memory by moving the program break. The operating system's side
  of that is external to the repository; it is modelled by three numbers: the lowest
  address the break may take, the break itself, and the highest address it may reach.
\<close>

record heap_source =
  hs_base :: nat
  hs_brk :: nat
  hs_limit :: nat

section \<open>malloc.c: the linked-list allocator (i386: int and pointers are 32 bits)\<close>

type_synonym addr32 = "32 word"

text \<open>
  Modelled from the spec: the Heap Source, the primitive that "extends or queries the end
  of the heap segment and reports failure". For malloc.c it is the \<open>brk\<close> system call
  (number 45, entered by \<open>int $0x80\<close> in the inline assembly of \<open>brk\<close>), which is not
  part of the repository: the kernel moves the break to the requested address when that
  address is acceptable and answers the new break; otherwise it leaves the break where it
  is and answers the current break.
\<close>

definition sys_brk :: "addr32 \<Rightarrow> heap_source \<Rightarrow> addr32 \<times> heap_source" where
  "sys_brk a os =
     (if hs_base os \<le> unat a \<and> unat a \<le> hs_limit os
      then (a, os\<lparr>hs_brk := unat a\<rparr>)
      else (word_of_nat (hs_brk os), os))"

text \<open>
  \<open>static int brk(void *end_data_segment)\<close>: the assembly stores the system call's answer
  (register \<open>eax\<close>) in \<open>ret\<close>; the function has no \<open>return\<close> statement, and its caller
  \<open>sbrk\<close> uses the value left in \<open>eax\<close>, which is \<open>ret\<close>.
\<close>

definition brk :: "addr32 \<Rightarrow> heap_source \<Rightarrow> addr32 \<times> heap_source" where
  "brk end_data_segment os = sys_brk end_data_segment os"

text \<open>
  \<open>void *sbrk(int size) { void *p = brk(0); brk(((char*)p)+size); return p; }\<close>
  The answer of the second \<open>brk\<close> is dropped: \<open>sbrk\<close> returns the old break whether or
  not the break moved.
\<close>

definition sbrk :: "32 word \<Rightarrow> heap_source \<Rightarrow> addr32 \<times> heap_source" where
  "sbrk sz os =
     (let (p, os1) = brk 0 os;
          (r, os2) = brk (p + sz) os1
      in (p, os2))"

text \<open>\<open>struct block_meta\<close>; the fields carry the suffix \<open>_m\<close>.\<close>

record block_meta =
  size_m :: "32 word"
  next_m :: addr32
  free_m :: "32 word"
  magic_m :: "32 word"

text \<open>\<open>#define META_SIZE sizeof(struct block_meta)\<close>: four 4-byte fields on i386.\<close>

definition META_SIZE :: "32 word" where
  "META_SIZE = 16"

text \<open>
  The state of the program: the global \<open>global_base\<close>, the block headers in memory
  (addressed by the header's address; \<open>0\<close> is \<open>NULL\<close>), and the heap source.
\<close>

record mstate =
  global_base :: addr32
  heap :: "addr32 \<Rightarrow> block_meta"
  os :: heap_source

text \<open>
  \<open>find_free_block\<close>: the \<open>while\<close> loop, with \<open>*last\<close> and \<open>current\<close> as loop variables.
  The loop follows \<open>next\<close> pointers and need not end on a cyclic list, so the result is
  optional. The comparison \<open>current->size >= size\<close> is between two \<open>int\<close>s.
\<close>

partial_function (option) find_free_loop ::
  "(addr32 \<Rightarrow> block_meta) \<Rightarrow> 32 word \<Rightarrow> addr32 \<Rightarrow> addr32 \<Rightarrow> (addr32 \<times> addr32) option" where
  [code]: "find_free_loop h sz last_p current =
     (if current \<noteq> 0 \<and> \<not> (free_m (h current) \<noteq> 0 \<and> sint sz \<le> sint (size_m (h current)))
      then find_free_loop h sz current (next_m (h current))
      else Some (last_p, current))"

text \<open>The result is the pair of the final \<open>*last\<close> and the returned block.\<close>

definition find_free_block :: "addr32 \<Rightarrow> 32 word \<Rightarrow> mstate \<Rightarrow> (addr32 \<times> addr32) option" where
  "find_free_block last_p sz s = find_free_loop (heap s) sz last_p (global_base s)"

definition request_space :: "addr32 \<Rightarrow> 32 word \<Rightarrow> mstate \<Rightarrow> addr32 \<times> mstate" where
  "request_space last_p sz s =
     (let (block, os1) = sbrk 0 (os s);
          (request, os2) = sbrk (sz + META_SIZE) os1;
          s1 = s\<lparr>os := os2\<rparr>
      in if request = - 1 then (0, s1)
         else
           let h1 = (if last_p \<noteq> 0 then (heap s1)(last_p := (heap s1 last_p)\<lparr>next_m := block\<rparr>)
                     else heap s1);
               h2 = h1(block := (h1 block)\<lparr>size_m := sz\<rparr>);
               h3 = h2(block := (h2 block)\<lparr>next_m := 0\<rparr>);
               h4 = h3(block := (h3 block)\<lparr>free_m := 0\<rparr>);
               h5 = h4(block := (h4 block)\<lparr>magic_m := 0x12345678\<rparr>)
           in (block, s1\<lparr>heap := h5\<rparr>))"

text \<open>\<open>malloc\<close>; \<open>block + 1\<close> is the address \<open>META_SIZE\<close> bytes after the header.\<close>

definition malloc :: "32 word \<Rightarrow> mstate \<Rightarrow> (addr32 \<times> mstate) option" where
  "malloc sz s =
     (if sint sz \<le> 0 then Some (0, s)
      else if global_base s = 0 then
        (let (block, s1) = request_space 0 sz s
         in if block = 0 then Some (0, s1)
            else Some (block + META_SIZE, s1\<lparr>global_base := block\<rparr>))
      else
        (case find_free_block (global_base s) sz s of
           None \<Rightarrow> None
         | Some (last_p, block) \<Rightarrow>
             if block = 0 then
               (let (block', s1) = request_space last_p sz s
                in if block' = 0 then Some (0, s1) else Some (block' + META_SIZE, s1))
             else
               (let h1 = (heap s)(block := (heap s block)\<lparr>free_m := 0\<rparr>);
                    h2 = h1(block := (h1 block)\<lparr>magic_m := 0x77777777\<rparr>)
                in Some (block + META_SIZE, s\<lparr>heap := h2\<rparr>))))"

definition get_block_ptr :: "addr32 \<Rightarrow> addr32" where
  "get_block_ptr ptr = ptr - META_SIZE"

definition free :: "addr32 \<Rightarrow> mstate \<Rightarrow> mstate" where
  "free ptr s =
     (if ptr = 0 then s
      else
        let block_ptr = get_block_ptr ptr;
            h1 = (heap s)(block_ptr := (heap s block_ptr)\<lparr>free_m := 1\<rparr>);
            h2 = h1(block_ptr := (h1 block_ptr)\<lparr>magic_m := 0x55555555\<rparr>)
        in s\<lparr>heap := h2\<rparr>)"

section \<open>MyMalloc.cc: the simple allocator (LP64: size_t and pointers are 64 bits)\<close>

type_synonym addr64 = "64 word"

text \<open>
  Modelled from the spec: the Heap Source, the primitive that "extends or queries the end
  of the heap segment and reports failure". For MyMalloc.cc it is \<open>sbrk\<close> of the C
  library (\<open>unistd.h\<close>), which is not part of the repository: the increment is an
  \<open>intptr_t\<close>, so a \<open>size_t\<close> argument is read as a signed number; on success the break
  moves by the increment and the old break is returned, on failure the break stays and
  \<open>(void *) -1\<close> is returned.
\<close>

definition libc_sbrk :: "64 word \<Rightarrow> heap_source \<Rightarrow> addr64 \<times> heap_source" where
  "libc_sbrk increment hs =
     (let new = int (hs_brk hs) + sint increment
      in if int (hs_base hs) \<le> new \<and> new \<le> int (hs_limit hs)
         then (word_of_nat (hs_brk hs), hs\<lparr>hs_brk := nat new\<rparr>)
         else (- 1, hs))"

text \<open>The enumeration of the flag values.\<close>

definition ObjFree :: "32 word" where
  "ObjFree = 0"

definition ObjAllocated :: "32 word" where
  "ObjAllocated = 1"

text \<open>\<open>class ObjectHeader\<close>; the fields \<open>_flags\<close> and \<open>_objectSize\<close>.\<close>

record ObjectHeader =
  flags :: "32 word"
  objSize :: "64 word"

text \<open>\<open>sizeof(ObjectHeader)\<close>: a 4-byte int, 4 bytes of padding and an 8-byte size_t.\<close>

definition sizeof_ObjectHeader :: "64 word" where
  "sizeof_ObjectHeader = 16"

text \<open>\<open>class Allocator\<close>: the fields, without their leading underscore.\<close>

record Allocator =
  heapSize :: "64 word"
  initialized :: "32 word"
  verbose :: "32 word"
  mallocCalls :: "32 word"
  freeCalls :: "32 word"
  reallocCalls :: "32 word"
  callocCalls :: "32 word"

text \<open>
  The state of the process: the single allocator object, the object headers in memory
  (addressed by the header's address), the bytes of memory that payload pointers refer
  to, the heap source, the environment variable \<open>MALLOCVERBOSE\<close>, and the number of
  handlers registered with \<open>atexit\<close>. Headers are written through \<open>ObjectHeader *\<close>
  only and payload through \<open>memcpy\<close> and \<open>memset\<close> only, so the store keeps the two
  apart. The store is total: a write outside the heap changes the store where the real
  process would fault, so the theorems about written bytes also say that these bytes lie
  between the old and the new break.
\<close>

record process =
  TheAllocator :: Allocator
  headers :: "addr64 \<Rightarrow> ObjectHeader"
  bytes :: "addr64 \<Rightarrow> 8 word"
  heap_src :: heap_source
  MALLOCVERBOSE :: "string option"
  atexit_handlers :: nat

text \<open>
  \<open>memcpy\<close> and \<open>memset\<close> of the C library (\<open>string.h\<close>, not part of the
  repository), as the loops that move one byte at a time from the lowest address up. A
  copy between overlapping regions therefore does not in general reproduce the source.
\<close>

primrec copy_bytes :: "nat \<Rightarrow> addr64 \<Rightarrow> addr64 \<Rightarrow> (addr64 \<Rightarrow> 8 word) \<Rightarrow> (addr64 \<Rightarrow> 8 word)" where
  "copy_bytes 0 dst src m = m"
| "copy_bytes (Suc k) dst src m = copy_bytes k (dst + 1) (src + 1) (m(dst := m src))"

definition memcpy :: "addr64 \<Rightarrow> addr64 \<Rightarrow> 64 word \<Rightarrow> process \<Rightarrow> process" where
  "memcpy dst src n s = s\<lparr>bytes := copy_bytes (unat n) dst src (bytes s)\<rparr>"

primrec fill_bytes :: "nat \<Rightarrow> addr64 \<Rightarrow> 8 word \<Rightarrow> (addr64 \<Rightarrow> 8 word) \<Rightarrow> (addr64 \<Rightarrow> 8 word)" where
  "fill_bytes 0 dst c m = m"
| "fill_bytes (Suc k) dst c m = fill_bytes k (dst + 1) c (m(dst := c))"

definition memset :: "addr64 \<Rightarrow> 8 word \<Rightarrow> 64 word \<Rightarrow> process \<Rightarrow> process" where
  "memset dst c n s = s\<lparr>bytes := fill_bytes (unat n) dst c (bytes s)\<rparr>"

definition increaseMallocCalls :: "process \<Rightarrow> process" where
  "increaseMallocCalls s =
     s\<lparr>TheAllocator := (TheAllocator s)\<lparr>mallocCalls := mallocCalls (TheAllocator s) + 1\<rparr>\<rparr>"

definition increaseReallocCalls :: "process \<Rightarrow> process" where
  "increaseReallocCalls s =
     s\<lparr>TheAllocator := (TheAllocator s)\<lparr>reallocCalls := reallocCalls (TheAllocator s) + 1\<rparr>\<rparr>"

definition increaseCallocCalls :: "process \<Rightarrow> process" where
  "increaseCallocCalls s =
     s\<lparr>TheAllocator := (TheAllocator s)\<lparr>callocCalls := callocCalls (TheAllocator s) + 1\<rparr>\<rparr>"

definition increaseFreeCalls :: "process \<Rightarrow> process" where
  "increaseFreeCalls s =
     s\<lparr>TheAllocator := (TheAllocator s)\<lparr>freeCalls := freeCalls (TheAllocator s) + 1\<rparr>\<rparr>"

text \<open>
  \<open>Allocator::initialize\<close>: verbose unless the environment says \<open>NO\<close>, one more handler
  registered with \<open>atexit\<close>, and the allocator marked initialized.
\<close>

definition initialize :: "process \<Rightarrow> process" where
  "initialize s =
     (let s1 = s\<lparr>TheAllocator := (TheAllocator s)\<lparr>verbose := 1\<rparr>\<rparr>;
          s2 = (if MALLOCVERBOSE s1 = Some ''NO''
                then s1\<lparr>TheAllocator := (TheAllocator s1)\<lparr>verbose := 0\<rparr>\<rparr>
                else s1);
          s3 = s2\<lparr>atexit_handlers := atexit_handlers s2 + 1\<rparr>
      in s3\<lparr>TheAllocator := (TheAllocator s3)\<lparr>initialized := 1\<rparr>\<rparr>)"

definition getMemoryFromOS :: "64 word \<Rightarrow> process \<Rightarrow> addr64 \<times> process" where
  "getMemoryFromOS sz s =
     (let s1 = s\<lparr>TheAllocator := (TheAllocator s)\<lparr>heapSize := heapSize (TheAllocator s) + sz\<rparr>\<rparr>;
          (p, hs) = libc_sbrk sz (heap_src s1)
      in (p, s1\<lparr>heap_src := hs\<rparr>))"

text \<open>
  \<open>Allocator::allocateObject\<close>. The result of \<open>getMemoryFromOS\<close> is used as the header's
  address without a test; \<open>o + 1\<close> is the address \<open>sizeof(ObjectHeader)\<close> bytes after it.
\<close>

definition allocateObject :: "64 word \<Rightarrow> process \<Rightarrow> addr64 \<times> process" where
  "allocateObject sz s =
     (let s0 = (if initialized (TheAllocator s) = 0 then initialize s else s);
          totalSize = (sz + sizeof_ObjectHeader + 7) AND NOT 7;
          (mem, s1) = getMemoryFromOS totalSize s0;
          ob = mem;
          s2 = s1\<lparr>headers := (headers s1)(ob := (headers s1 ob)\<lparr>objSize := totalSize\<rparr>)\<rparr>;
          s3 = s2\<lparr>headers := (headers s2)(ob := (headers s2 ob)\<lparr>flags := ObjAllocated\<rparr>)\<rparr>
      in (ob + sizeof_ObjectHeader, s3))"

text \<open>\<open>Allocator::freeObject\<close>: the body is empty.\<close>

definition freeObject :: "addr64 \<Rightarrow> process \<Rightarrow> process" where
  "freeObject ptr s = s"

definition objectSize :: "addr64 \<Rightarrow> process \<Rightarrow> 64 word" where
  "objectSize ptr s =
     (let ob = ptr - sizeof_ObjectHeader
      in objSize (headers s ob) - sizeof_ObjectHeader)"

text \<open>The C interface of MyMalloc.cc; its names carry the prefix \<open>My_\<close>.\<close>

definition My_malloc :: "64 word \<Rightarrow> process \<Rightarrow> addr64 \<times> process" where
  "My_malloc sz s = allocateObject sz (increaseMallocCalls s)"

definition My_free :: "addr64 \<Rightarrow> process \<Rightarrow> process" where
  "My_free ptr s =
     (let s1 = increaseFreeCalls s
      in if ptr = 0 then s1 else freeObject ptr s1)"

definition My_realloc :: "addr64 \<Rightarrow> 64 word \<Rightarrow> process \<Rightarrow> addr64 \<times> process" where
  "My_realloc ptr sz s =
     (let s1 = increaseReallocCalls s;
          (newptr, s2) = allocateObject sz s1
      in if ptr \<noteq> 0 then
           (let sizeToCopy = objectSize ptr s2;
                sizeToCopy' = (if sizeToCopy > sz then sz else sizeToCopy);
                s3 = memcpy newptr ptr sizeToCopy' s2;
                s4 = freeObject ptr s3
            in (newptr, s4))
         else (newptr, s2))"

definition My_calloc :: "64 word \<Rightarrow> 64 word \<Rightarrow> process \<Rightarrow> addr64 \<times> process" where
  "My_calloc nelem elsize s =
     (let s1 = increaseCallocCalls s;
          sz = nelem * elsize;
          (ptr, s2) = allocateObject sz s1
      in if ptr \<noteq> 0 then (ptr, memset ptr 0 sz s2) else (ptr, s2))"

text \<open>\<open>checkHeap\<close>: the body is empty.\<close>

definition checkHeap :: "process \<Rightarrow> process" where
  "checkHeap s = s"

section \<open>Reading the block list of malloc.c\<close>

text \<open>
  \<open>chain h p bs\<close>: following \<open>next\<close> from \<open>p\<close> visits exactly the headers \<open>bs\<close>, in
  this order, and then reaches \<open>NULL\<close>.
\<close>

fun chain :: "(addr32 \<Rightarrow> block_meta) \<Rightarrow> addr32 \<Rightarrow> addr32 list \<Rightarrow> bool" where
  "chain h p [] = (p = 0)"
| "chain h p (a # as) = (p = a \<and> a \<noteq> 0 \<and> chain h (next_m (h a)) as)"

text \<open>
  The blocks \<open>bs\<close> are the list of the state \<open>s\<close>: they are chained from \<open>global_base\<close>,
  their addresses ascend strictly, and the payload pointer of each does not wrap around
  the address space.
\<close>

definition block_list :: "mstate \<Rightarrow> addr32 list \<Rightarrow> bool" where
  "block_list s bs =
     (chain (heap s) (global_base s) bs \<and> sorted_wrt (<) bs \<and>
      (\<forall>a \<in> set bs. unat a + unat META_SIZE < 2 ^ 32))"

text \<open>
  The invariant of the states that malloc.c reaches while the break can move: the list is
  well formed, the break lies between its bounds, the bounds leave room for a header below
  the top of the address space, and every header lies below the break.
\<close>

definition heap_inv :: "mstate \<Rightarrow> addr32 list \<Rightarrow> bool" where
  "heap_inv s bs =
     (block_list s bs \<and> 0 < hs_base (os s) \<and> hs_base (os s) \<le> hs_brk (os s) \<and>
      hs_brk (os s) \<le> hs_limit (os s) \<and> hs_limit (os s) + unat META_SIZE < 2 ^ 32 \<and>
      (\<forall>a \<in> set bs. unat a < hs_brk (os s)))"

text \<open>The test of the loop in \<open>find_free_block\<close>: the block is free and large enough.\<close>

definition fits :: "(addr32 \<Rightarrow> block_meta) \<Rightarrow> 32 word \<Rightarrow> addr32 \<Rightarrow> bool" where
  "fits h sz a = (free_m (h a) \<noteq> 0 \<and> sint sz \<le> sint (size_m (h a)))"

text \<open>
  The loop of \<open>find_free_block\<close> on the list of headers: the pair of \<open>*last\<close> and the
  block found (\<open>NULL\<close> when none fits).
\<close>

fun scan :: "(addr32 \<Rightarrow> bool) \<Rightarrow> addr32 \<Rightarrow> addr32 list \<Rightarrow> addr32 \<times> addr32" where
  "scan P last_p [] = (last_p, 0)"
| "scan P last_p (a # as) = (if P a then (last_p, a) else scan P a as)"

text \<open>
  What \<open>malloc\<close> does with a block it found: \<open>free = 0\<close> and \<open>magic = 0x77777777\<close>,
  everything else as before.
\<close>

definition take_block :: "addr32 \<Rightarrow> mstate \<Rightarrow> mstate" where
  "take_block b s = s\<lparr>heap := (heap s)(b := (heap s b)\<lparr>free_m := 0, magic_m := 0x77777777\<rparr>)\<rparr>"

text \<open>
  What \<open>malloc\<close> does when it found none: \<open>request_space\<close> behind the last block of the
  list, and \<open>global_base\<close> set when the list was empty.
\<close>

definition grow :: "addr32 list \<Rightarrow> 32 word \<Rightarrow> mstate \<Rightarrow> (addr32 \<times> mstate) option" where
  "grow bs sz s =
     (let (block, s1) = request_space (if bs = [] then 0 else last bs) sz s
      in if block = 0 then Some (0, s1)
         else Some (block + META_SIZE, if bs = [] then s1\<lparr>global_base := block\<rparr> else s1))"

text \<open>
  Two blocks are physically adjacent when the second header starts where the payload of
  the first ends. \<open>no_adjacent_free h bs\<close>: no two neighbours in \<open>bs\<close> are physically
  adjacent and both free.
\<close>

fun no_adjacent_free :: "(addr32 \<Rightarrow> block_meta) \<Rightarrow> addr32 list \<Rightarrow> bool" where
  "no_adjacent_free h (a # b # bs) =
     (\<not> (free_m (h a) \<noteq> 0 \<and> b = a + META_SIZE + size_m (h a) \<and> free_m (h b) \<noteq> 0) \<and>
      no_adjacent_free h (b # bs))"
| "no_adjacent_free h bs = True"

text \<open>The pointer a call returned and the state it left, for calls that return.\<close>

definition ret :: "(addr32 \<times> mstate) option \<Rightarrow> addr32 option" where
  "ret r = map_option fst r"

definition after :: "(addr32 \<times> mstate) option \<Rightarrow> mstate" where
  "after r = snd (the r)"

text \<open>
  A fresh process image for malloc.c: no block yet, memory zeroed, the break at 4096 with
  room up to 8192.
\<close>

definition boot :: mstate where
  "boot = \<lparr>global_base = 0,
           heap = (\<lambda>_. \<lparr>size_m = 0, next_m = 0, free_m = 0, magic_m = 0\<rparr>),
           os = \<lparr>hs_base = 4096, hs_brk = 4096, hs_limit = 8192\<rparr>\<rparr>"

text \<open>The same image with no room left above the break.\<close>

definition full_boot :: mstate where
  "full_boot = boot\<lparr>os := \<lparr>hs_base = 4096, hs_brk = 4096, hs_limit = 4096\<rparr>\<rparr>"

text \<open>Two blocks of eight bytes, at 4096 and 4120; their payloads are at 4112 and 4136.\<close>

definition two_blocks :: mstate where
  "two_blocks = after (malloc 8 (after (malloc 8 boot)))"

section \<open>Reading the heap of MyMalloc.cc\<close>

text \<open>\<open>totalSize\<close> as \<open>allocateObject\<close> computes it.\<close>

definition totalSize_of :: "64 word \<Rightarrow> 64 word" where
  "totalSize_of sz = (sz + sizeof_ObjectHeader + 7) AND NOT 7"

text \<open>
  The heap source grants the request that \<open>allocateObject sz\<close> makes: \<open>sbrk\<close> does not
  answer \<open>(void *) -1\<close>, and the break moves up by \<open>totalSize\<close> bytes, so that the
  \<open>totalSize\<close> bytes from the old break on lie below the new break. A \<open>totalSize\<close> of
  \<open>2^63\<close> or more is a negative increment for \<open>sbrk\<close>; a break that moves down is
  not a grant. Whether the granted \<open>totalSize\<close> bytes cover the request is a separate
  matter: they do when \<open>sz + sizeof(ObjectHeader) + 7\<close> does not wrap, which the
  theorems that need it assume on its own.
\<close>

definition heap_grants :: "64 word \<Rightarrow> process \<Rightarrow> bool" where
  "heap_grants sz s =
     (fst (libc_sbrk (totalSize_of sz) (heap_src s)) \<noteq> - 1 \<and>
      hs_brk (snd (libc_sbrk (totalSize_of sz) (heap_src s))) =
        hs_brk (heap_src s) + unat (totalSize_of sz))"

text \<open>
  The break lies between its bounds, and the bounds lie in the user half of the x86-64
  address space.
\<close>

definition heap_source_ok :: "heap_source \<Rightarrow> bool" where
  "heap_source_ok hs = (hs_base hs \<le> hs_brk hs \<and> hs_brk hs \<le> hs_limit hs \<and> hs_limit hs \<le> 2 ^ 47)"

text \<open>
  \<open>p\<close> is a live allocation with payload size \<open>m\<close>: its header is marked allocated and
  records \<open>m\<close> bytes of payload, and header and payload lie inside the heap.
\<close>

definition live :: "addr64 \<Rightarrow> 64 word \<Rightarrow> process \<Rightarrow> bool" where
  "live p m s =
     (p \<noteq> 0 \<and> flags (headers s (p - sizeof_ObjectHeader)) = ObjAllocated \<and>
      objectSize p s = m \<and>
      hs_base (heap_src s) + unat sizeof_ObjectHeader \<le> unat p \<and>
      unat p + unat m \<le> hs_brk (heap_src s))"

text \<open>
  A fresh process image for MyMalloc.cc: the allocator object zero-initialised, memory
  zeroed, the break at 65536 with room up to 131072.
\<close>

definition boot_process :: process where
  "boot_process =
     \<lparr>TheAllocator = \<lparr>heapSize = 0, initialized = 0, verbose = 0, mallocCalls = 0,
                      freeCalls = 0, reallocCalls = 0, callocCalls = 0\<rparr>,
      headers = (\<lambda>_. \<lparr>flags = 0, objSize = 0\<rparr>),
      bytes = (\<lambda>_. 0),
      heap_src = \<lparr>hs_base = 65536, hs_brk = 65536, hs_limit = 131072\<rparr>,
      MALLOCVERBOSE = None,
      atexit_handlers = 0\<rparr>"

text \<open>The same image with no room left above the break.\<close>

definition full_process :: process where
  "full_process = boot_process\<lparr>heap_src := \<lparr>hs_base = 65536, hs_brk = 65536, hs_limit = 65536\<rparr>\<rparr>"

text \<open>The image after one \<open>malloc(8)\<close>, whose payload is at 65552 and holds the bytes 1 to 8.\<close>

definition one_object :: process where
  "one_object =
     (snd (My_malloc 8 boot_process))
       \<lparr>bytes := (\<lambda>a. if 65552 \<le> a \<and> a < 65560 then ucast (a - 65551) else 0)\<rparr>"

section \<open>The loop of find_free_block and the list of blocks\<close>

lemmas run_defs = malloc_def request_space_def sbrk_def brk_def sys_brk_def META_SIZE_def
  Let_def find_free_block_def find_free_loop.simps free_def get_block_ptr_def ret_def after_def

lemma find_free_loop_scan:
  "chain h cur bs \<Longrightarrow> find_free_loop h sz l cur = Some (scan (fits h sz) l bs)"
proof (induction bs arbitrary: l cur)
  case Nil
  then show ?case by (subst find_free_loop.simps) simp
next
  case (Cons a as)
  then have "cur = a" "a \<noteq> 0" and ch: "chain h (next_m (h a)) as" by simp_all
  have cond: "(free_m (h a) \<noteq> 0 \<and> sint sz \<le> sint (size_m (h a))) = fits h sz a"
    by (simp add: fits_def)
  show ?case
    using \<open>cur = a\<close> \<open>a \<noteq> 0\<close> Cons.IH [OF ch, of a]
    by (subst find_free_loop.simps) (simp add: cond)
qed

lemma chain_nonzero: "chain h p bs \<Longrightarrow> 0 \<notin> set bs"
  by (induction bs arbitrary: p) auto

lemma scan_find_Some:
  "find P bs = Some b \<Longrightarrow> snd (scan P l bs) = b"
  by (induction bs arbitrary: l) (auto split: if_splits)

lemma scan_find_None:
  "find P bs = None \<Longrightarrow> scan P l bs = (if bs = [] then l else last bs, 0)"
  by (induction bs arbitrary: l) (auto split: if_splits)

lemma malloc_found:
  assumes "block_list s bs" "0 < sint sz" "find (fits (heap s) sz) bs = Some b"
  shows "malloc sz s = Some (b + META_SIZE, take_block b s)"
proof -
  from assms(1) have ch: "chain (heap s) (global_base s) bs" by (simp add: block_list_def)
  from assms(3) have "b \<in> set bs" by (auto simp: find_Some_iff)
  with chain_nonzero [OF ch] have "b \<noteq> 0" by auto
  have "bs \<noteq> []" using assms(3) by auto
  with ch have gb: "global_base s \<noteq> 0" by (cases bs) auto
  obtain l where sc: "scan (fits (heap s) sz) (global_base s) bs = (l, b)"
    using scan_find_Some [OF assms(3), of "global_base s"] by (cases "scan (fits (heap s) sz) (global_base s) bs") auto
  show ?thesis using assms(2) gb \<open>b \<noteq> 0\<close> find_free_loop_scan [OF ch, of sz "global_base s"] sc
    by (simp add: malloc_def find_free_block_def take_block_def Let_def)
qed

lemma malloc_not_found:
  assumes "block_list s bs" "0 < sint sz" "find (fits (heap s) sz) bs = None"
  shows "malloc sz s = grow bs sz s"
proof (cases bs)
  case Nil
  with assms(1) have "global_base s = 0" by (simp add: block_list_def)
  then show ?thesis using assms(2) Nil by (simp add: malloc_def grow_def split: prod.splits)
next
  case (Cons a as)
  from assms(1) have ch: "chain (heap s) (global_base s) bs" by (simp add: block_list_def)
  with Cons have gb: "global_base s \<noteq> 0" by auto
  show ?thesis using assms(2) gb find_free_loop_scan [OF ch, of sz "global_base s"] scan_find_None [OF assms(3), of "global_base s"] Cons
    by (simp add: malloc_def find_free_block_def grow_def split: prod.splits)
qed


lemma chain_cong_next:
  "(\<And>a. next_m (h' a) = next_m (h a)) \<Longrightarrow> chain h' p bs = chain h p bs"
  by (induction bs arbitrary: p) simp_all

lemma find_lowest:
  assumes "sorted_wrt (<) bs" "find P bs = Some b" "a \<in> set bs" "a < (b::addr32)"
  shows "\<not> P a"
proof -
  from assms(2) obtain i where i: "i < length bs" "b = bs ! i" "\<forall>j<i. \<not> P (bs ! j)"
    by (auto simp: find_Some_iff)
  from assms(3) obtain j where j: "j < length bs" "a = bs ! j"
    by (auto simp: in_set_conv_nth)
  have "j < i"
  proof (rule ccontr)
    assume "\<not> j < i"
    then have "i = j \<or> i < j" by auto
    then show False
    proof
      assume "i = j" with i j assms(4) show False by simp
    next
      assume "i < j"
      with assms(1) j(1) have "bs ! i < bs ! j" by (simp add: sorted_wrt_nth_less)
      with i j assms(4) show False by simp
    qed
  qed
  with i j show ?thesis by simp
qed

lemma allocateObject_heap_src:
  "heap_src (snd (allocateObject n t)) = snd (libc_sbrk (totalSize_of n) (heap_src t))"
  by (simp add: allocateObject_def getMemoryFromOS_def initialize_def totalSize_of_def Let_def
      split: prod.splits)

lemma two_blocks_eval:
  "two_blocks = \<lparr>global_base = 4096,
     heap = (\<lambda>_. \<lparr>size_m = 0, next_m = 0, free_m = 0, magic_m = 0\<rparr>)
       (4096 := \<lparr>size_m = 8, next_m = 4120, free_m = 0, magic_m = 0x12345678\<rparr>,
        4120 := \<lparr>size_m = 8, next_m = 0, free_m = 0, magic_m = 0x12345678\<rparr>),
     os = \<lparr>hs_base = 4096, hs_brk = 4144, hs_limit = 8192\<rparr>\<rparr>"
  by (simp add: two_blocks_def boot_def run_defs)

lemma payload_ptr_nonzero:
  assumes "unat (a::addr32) + unat META_SIZE < 2 ^ 32"
  shows "a + META_SIZE \<noteq> 0"
proof
  assume z: "a + META_SIZE = 0"
  have "unat (a + META_SIZE) = unat a + unat META_SIZE"
    using assms by (simp add: unat_word_ariths META_SIZE_def)
  with z show False by (simp add: META_SIZE_def)
qed

lemma free_block_state:
  assumes "unat b + unat META_SIZE < 2 ^ 32"
  shows "free (b + META_SIZE) s =
           s\<lparr>heap := (heap s)(b := (heap s b)\<lparr>free_m := 1, magic_m := 0x55555555\<rparr>)\<rparr>"
  using payload_ptr_nonzero [OF assms] by (simp add: free_def get_block_ptr_def Let_def)

lemma block_list_free:
  assumes "block_list s bs" "unat b + unat META_SIZE < 2 ^ 32"
  shows "block_list (free (b + META_SIZE) s) bs"
proof -
  have "chain (heap (free (b + META_SIZE) s)) (global_base s) bs = chain (heap s) (global_base s) bs"
    by (rule chain_cong_next) (simp add: free_block_state [OF assms(2)])
  with assms show ?thesis by (simp add: block_list_def free_block_state [OF assms(2)])
qed


lemma two_blocks_list: "block_list two_blocks [4096, 4120]"
  by (simp add: two_blocks_eval block_list_def META_SIZE_def)

lemma My_free_store:
  "headers (My_free q t) = headers t \<and> bytes (My_free q t) = bytes t \<and>
   heap_src (My_free q t) = heap_src t"
  by (simp add: My_free_def freeObject_def increaseFreeCalls_def Let_def)

section \<open>The list stays well formed\<close>

text \<open>
  The invariant holds at start; \<open>free\<close> of a block of the list keeps it, and so does
  \<open>malloc\<close> of a positive size as long as there is room above the break for the
  request and its header. In those states \<open>malloc\<close> returns, and not \<open>NULL\<close>.
\<close>

lemma sbrk_room:
  assumes "0 < hs_base hs" "hs_base hs \<le> hs_brk hs" "hs_brk hs + unat w \<le> hs_limit hs"
    "hs_limit hs < 2 ^ 32"
  shows "sbrk w hs = (word_of_nat (hs_brk hs), hs\<lparr>hs_brk := hs_brk hs + unat w\<rparr>)"
proof -
  have b: "hs_brk hs < 2 ^ 32" using assms by simp
  have ub: "unat (word_of_nat (hs_brk hs) :: 32 word) = hs_brk hs"
    using b by (simp add: unat_of_nat)
  have "hs_brk hs + unat w < 2 ^ 32" using assms by simp
  with ub have "unat (word_of_nat (hs_brk hs) :: 32 word) + unat w < 2 ^ LENGTH(32)" by simp
  then have "unat (word_of_nat (hs_brk hs) + w) = unat (word_of_nat (hs_brk hs) :: 32 word) + unat w"
    by (simp only: unat_add_lem)
  with ub have un: "unat (word_of_nat (hs_brk hs) + w) = hs_brk hs + unat w" by simp
  have 1: "brk 0 hs = (word_of_nat (hs_brk hs), hs)"
    using assms(1) by (simp add: brk_def sys_brk_def)
  have 2: "brk (word_of_nat (hs_brk hs) + w) hs =
      (word_of_nat (hs_brk hs) + w, hs\<lparr>hs_brk := hs_brk hs + unat w\<rparr>)"
    using assms by (simp add: brk_def sys_brk_def un)
  show ?thesis by (simp add: sbrk_def 1 2)
qed

lemma chain_snoc:
  assumes "chain h p bs" "bs \<noteq> []" "b \<notin> set bs" "b \<noteq> 0" "distinct bs" "next_m B = 0"
  shows "chain (h(last bs := (h (last bs))\<lparr>next_m := b\<rparr>, b := B)) p (bs @ [b])"
  using assms
proof (induction bs arbitrary: p)
  case Nil
  then show ?case by simp
next
  case (Cons a as)
  show ?case
  proof (cases "as = []")
    case True
    with Cons.prems show ?thesis by simp
  next
    case False
    define H where "H = h(last as := (h (last as))\<lparr>next_m := b\<rparr>, b := B)"
    from Cons.prems have "a \<noteq> last as" "a \<noteq> b" using False by auto
    then have Ha: "H a = h a" by (simp add: H_def)
    from Cons.prems False have "chain H (next_m (h a)) (as @ [b])"
      unfolding H_def by (intro Cons.IH) auto
    with Ha Cons.prems have c: "chain H p ((a # as) @ [b])" by simp
    have L: "last (a # as) = last as" using False by simp
    show ?thesis using c unfolding L H_def .
  qed
qed


lemma request_space_room:
  assumes os: "0 < hs_base (os s)" "hs_base (os s) \<le> hs_brk (os s)"
      "hs_limit (os s) + unat META_SIZE < 2 ^ 32"
    and room: "hs_brk (os s) + unat sz + 16 \<le> hs_limit (os s)"
  shows "request_space l sz s =
     (word_of_nat (hs_brk (os s)),
      s\<lparr>os := (os s)\<lparr>hs_brk := hs_brk (os s) + unat sz + 16\<rparr>,
        heap := (if l \<noteq> 0 then (heap s)(l := (heap s l)\<lparr>next_m := word_of_nat (hs_brk (os s))\<rparr>)
                 else heap s)
          (word_of_nat (hs_brk (os s)) :=
             \<lparr>size_m = sz, next_m = 0, free_m = 0, magic_m = 0x12345678\<rparr>)\<rparr>)"
proof -
  let ?b = "word_of_nat (hs_brk (os s)) :: 32 word"
  have lim: "hs_limit (os s) + 16 < 2 ^ 32" using os(3) by (simp add: META_SIZE_def)
  have "unat sz + unat META_SIZE < 2 ^ LENGTH(32)" using room lim by (simp add: META_SIZE_def)
  then have "unat (sz + META_SIZE) = unat sz + unat META_SIZE" by (simp only: unat_add_lem)
  then have usz: "unat (sz + META_SIZE) = unat sz + 16" by (simp add: META_SIZE_def)
  have s0: "sbrk 0 (os s) = (?b, os s)"
    using sbrk_room [of "os s" 0] os(1,2) room lim by simp
  have s1: "sbrk (sz + META_SIZE) (os s) = (?b, (os s)\<lparr>hs_brk := hs_brk (os s) + unat sz + 16\<rparr>)"
    using sbrk_room [of "os s" "sz + META_SIZE"] os(1,2) room lim by (simp add: usz add.assoc)
  have "hs_brk (os s) < 2 ^ 32 - 1" using room lim by simp
  then have ub: "unat ?b = hs_brk (os s)" by (simp add: unat_of_nat)
  have m1: "(- 1 :: 32 word) = 4294967295" by simp
  have "unat (- 1 :: 32 word) = 4294967295" by (simp add: m1)
  with ub \<open>hs_brk (os s) < 2 ^ 32 - 1\<close> have ne: "?b \<noteq> - 1" by auto
  have rec: "\<And>r. r\<lparr>size_m := sz, next_m := 0, free_m := 0, magic_m := 0x12345678\<rparr> =
      \<lparr>size_m = sz, next_m = 0, free_m = 0, magic_m = 0x12345678\<rparr>"
    by (case_tac r) simp
  show ?thesis by (simp add: request_space_def s0 s1 ne Let_def rec)
qed


lemma heap_inv_grow:
  assumes inv: "heap_inv s bs" and pos: "0 < sint sz"
    and nofit: "find (fits (heap s) sz) bs = None"
    and room: "hs_brk (os s) + unat sz + 16 \<le> hs_limit (os s)"
  shows "\<exists>s'. malloc sz s = Some (word_of_nat (hs_brk (os s)) + META_SIZE, s') \<and>
              heap_inv s' (bs @ [word_of_nat (hs_brk (os s))]) \<and>
              hs_brk (os s') = hs_brk (os s) + unat sz + 16"
proof -
  let ?b = "word_of_nat (hs_brk (os s)) :: 32 word"
  let ?B = "\<lparr>size_m = sz, next_m = 0, free_m = 0, magic_m = 0x12345678\<rparr>"
  from inv have bl: "block_list s bs" and os: "0 < hs_base (os s)" "hs_base (os s) \<le> hs_brk (os s)"
      "hs_limit (os s) + unat META_SIZE < 2 ^ 32"
    and below: "\<forall>a \<in> set bs. unat a < hs_brk (os s)"
    by (simp_all add: heap_inv_def)
  from bl have ch: "chain (heap s) (global_base s) bs" and so: "sorted_wrt (<) bs"
    and nw: "\<forall>a \<in> set bs. unat a + unat META_SIZE < 2 ^ 32"
    by (simp_all add: block_list_def)
  have lim: "hs_limit (os s) + 16 < 2 ^ 32" using os(3) by (simp add: META_SIZE_def)
  have "hs_brk (os s) < 2 ^ 32" using room lim by simp
  then have ub: "unat ?b = hs_brk (os s)" by (simp add: unat_of_nat)
  with os have b0: "?b \<noteq> 0" by (auto simp: unat_eq_zero [symmetric] simp del: unat_eq_zero)
  have bnotin: "?b \<notin> set bs" using below ub by auto
  have lt: "\<forall>a \<in> set bs. a < ?b" using below ub by (simp add: word_less_nat_alt)
  note rs = request_space_room [OF os room]
  have m: "malloc sz s = grow bs sz s" by (rule malloc_not_found [OF bl pos nofit])
  show ?thesis
  proof (cases "bs = []")
    case True
    with ch have gb: "global_base s = 0" by simp
    let ?s' = "s\<lparr>os := (os s)\<lparr>hs_brk := hs_brk (os s) + unat sz + 16\<rparr>,
                  heap := (heap s)(?b := ?B), global_base := ?b\<rparr>"
    have "malloc sz s = Some (?b + META_SIZE, ?s')"
      using True b0 by (simp add: m grow_def rs)
    moreover have "heap_inv ?s' (bs @ [?b])"
      using True b0 os room lim ub by (simp add: heap_inv_def block_list_def META_SIZE_def)
    ultimately show ?thesis by auto
  next
    case False
    let ?l = "last bs"
    let ?s' = "s\<lparr>os := (os s)\<lparr>hs_brk := hs_brk (os s) + unat sz + 16\<rparr>,
                  heap := (heap s)(?l := (heap s ?l)\<lparr>next_m := ?b\<rparr>, ?b := ?B)\<rparr>"
    from False have "?l \<in> set bs" by simp
    with chain_nonzero [OF ch] have l0: "?l \<noteq> 0" by auto
    have res: "malloc sz s = Some (?b + META_SIZE, ?s')"
      using False b0 l0 by (simp add: m grow_def rs)
    from so have di: "distinct bs" by (simp add: strict_sorted_iff)
    have ch': "chain (heap ?s') (global_base ?s') (bs @ [?b])"
      using chain_snoc [OF ch False bnotin b0 di, of ?B] by simp
    have so': "sorted_wrt (<) (bs @ [?b])" using so lt by (simp add: sorted_wrt_append)
    have "heap_inv ?s' (bs @ [?b])"
      using ch' so' nw below os room lim ub
      by (auto simp: heap_inv_def block_list_def META_SIZE_def)
    with res show ?thesis by auto
  qed
qed

lemma heap_inv_take:
  assumes "heap_inv s bs"
  shows "heap_inv (take_block b s) bs"
proof -
  have "chain (heap (take_block b s)) (global_base s) bs = chain (heap s) (global_base s) bs"
    by (rule chain_cong_next) (simp add: take_block_def)
  with assms show ?thesis by (simp add: heap_inv_def block_list_def take_block_def)
qed

lemma heap_inv_free:
  assumes "heap_inv s bs" and "b \<in> set bs"
  shows "heap_inv (free (b + META_SIZE) s) bs"
proof -
  from assms have nw: "unat b + unat META_SIZE < 2 ^ 32" by (simp add: heap_inv_def block_list_def)
  from assms(1) have "block_list s bs" by (simp add: heap_inv_def)
  then have "block_list (free (b + META_SIZE) s) bs" using nw by (rule block_list_free)
  with assms(1) show ?thesis by (simp add: heap_inv_def free_block_state [OF nw])
qed

lemma heap_inv_boot: "heap_inv boot []"
  by (simp add: heap_inv_def block_list_def boot_def META_SIZE_def)

lemma heap_inv_malloc:
  assumes inv: "heap_inv s bs" and pos: "0 < sint sz"
    and room: "hs_brk (os s) + unat sz + 16 \<le> hs_limit (os s)"
  shows "\<exists>p s' bs'. malloc sz s = Some (p, s') \<and> p \<noteq> 0 \<and> heap_inv s' bs'"
proof (cases "find (fits (heap s) sz) bs")
  case None
  from inv have os: "0 < hs_base (os s)" "hs_base (os s) \<le> hs_brk (os s)"
      "hs_limit (os s) + unat META_SIZE < 2 ^ 32"
    by (simp_all add: heap_inv_def)
  have "unat (word_of_nat (hs_brk (os s)) :: 32 word) + unat META_SIZE < 2 ^ 32"
    using os room by (simp add: unat_of_nat META_SIZE_def)
  then have "(word_of_nat (hs_brk (os s)) :: 32 word) + META_SIZE \<noteq> 0"
    by (rule payload_ptr_nonzero)
  with heap_inv_grow [OF inv pos None room] show ?thesis by blast
next
  case (Some b)
  from inv have bl: "block_list s bs" by (simp add: heap_inv_def)
  from Some have "b \<in> set bs" by (auto simp: find_Some_iff)
  with bl have "unat b + unat META_SIZE < 2 ^ 32" by (simp add: block_list_def)
  then have "b + META_SIZE \<noteq> 0" by (rule payload_ptr_nonzero)
  moreover have "malloc sz s = Some (b + META_SIZE, take_block b s)"
    by (rule malloc_found [OF bl pos Some])
  moreover have "heap_inv (take_block b s) bs" by (rule heap_inv_take [OF inv])
  ultimately show ?thesis by blast
qed

section \<open>The store of MyMalloc.cc\<close>

lemmas proc_defs = My_malloc_def My_free_def My_realloc_def My_calloc_def allocateObject_def
  getMemoryFromOS_def libc_sbrk_def initialize_def freeObject_def objectSize_def
  increaseMallocCalls_def increaseFreeCalls_def increaseReallocCalls_def
  increaseCallocCalls_def sizeof_ObjectHeader_def ObjAllocated_def ObjFree_def
  memcpy_def memset_def Let_def

lemma header_written:
  "r\<lparr>objSize := a, flags := b\<rparr> = \<lparr>flags = b, objSize = a\<rparr>"
  by (cases r) simp

lemma and_split:
  "(x AND m) + (x AND NOT m) = (x :: 'a::len word)"
proof -
  have "(x AND m) AND (x AND NOT m) = 0"
    by (rule bit_eqI) (auto simp: bit_and_iff bit_not_iff)
  moreover have "(x AND m) OR (x AND NOT m) = x"
    by (rule bit_eqI) (auto simp: bit_and_iff bit_or_iff bit_not_iff dest: bit_imp_le_length)
  ultimately show ?thesis using word_plus_and_or [of "x AND m" "x AND NOT m"] by simp
qed

lemma allocateObject_store:
  "fst (allocateObject sz s) = fst (libc_sbrk (totalSize_of sz) (heap_src s)) + sizeof_ObjectHeader \<and>
   headers (snd (allocateObject sz s)) =
     (headers s)(fst (libc_sbrk (totalSize_of sz) (heap_src s)) :=
        \<lparr>flags = ObjAllocated, objSize = totalSize_of sz\<rparr>) \<and>
   bytes (snd (allocateObject sz s)) = bytes s"
  by (simp add: allocateObject_def getMemoryFromOS_def initialize_def totalSize_of_def Let_def
      header_written split: prod.splits)

lemma objectSize_allocateObject:
  "objectSize (fst (allocateObject sz s)) (snd (allocateObject sz s)) =
     totalSize_of sz - sizeof_ObjectHeader"
  by (simp add: allocateObject_store objectSize_def)

lemma totalSize_of_bounds:
  assumes "unat sz + 23 < 2 ^ 64"
  shows "unat sz + 16 \<le> unat (totalSize_of sz)" and "unat (totalSize_of sz) \<le> unat sz + 23"
proof -
  let ?x = "sz + 23"
  have ux: "unat ?x = unat sz + 23" using assms by (simp add: unat_word_ariths)
  have split: "(?x AND 7) + (?x AND NOT 7) = ?x" by (rule and_split)
  have le7: "unat (?x AND 7) \<le> 7"
    using word_and_le1 [of ?x 7] by (simp add: word_le_nat_alt)
  have "?x AND NOT 7 = ?x - (?x AND 7)" using split by (simp add: algebra_simps)
  moreover have "?x AND 7 \<le> ?x" by (rule word_and_le2)
  ultimately have "unat (?x AND NOT 7) = unat ?x - unat (?x AND 7)" by (simp add: unat_sub)
  with ux le7 have "unat sz + 16 \<le> unat (?x AND NOT 7) \<and> unat (?x AND NOT 7) \<le> unat sz + 23"
    by simp
  moreover have "totalSize_of sz = ?x AND NOT 7"
    by (simp add: totalSize_of_def sizeof_ObjectHeader_def add.assoc)
  ultimately show "unat sz + 16 \<le> unat (totalSize_of sz)" and "unat (totalSize_of sz) \<le> unat sz + 23"
    by simp_all
qed

lemma payload_at_least_request:
  assumes "unat sz + 23 < 2 ^ 64"
  shows "sz \<le> totalSize_of sz - sizeof_ObjectHeader"
proof -
  have "unat (sizeof_ObjectHeader) = 16" by (simp add: sizeof_ObjectHeader_def)
  moreover have "sizeof_ObjectHeader \<le> totalSize_of sz"
    using totalSize_of_bounds(1) [OF assms] by (simp add: word_le_nat_alt sizeof_ObjectHeader_def)
  ultimately have "unat (totalSize_of sz - sizeof_ObjectHeader) = unat (totalSize_of sz) - 16"
    by (simp add: unat_sub)
  with totalSize_of_bounds(1) [OF assms] show ?thesis by (simp add: word_le_nat_alt)
qed

lemma unat_plus_of_nat:
  "unat (a :: 64 word) + i < 2 ^ 64 \<Longrightarrow> unat (a + of_nat i) = unat a + i"
  by (simp add: unat_word_ariths unat_of_nat)

lemma of_nat_Suc_nonzero:
  "Suc i < 2 ^ 64 \<Longrightarrow> (1 + of_nat i :: 64 word) \<noteq> 0"
proof
  assume b: "Suc i < 2 ^ 64" and z: "(1 + of_nat i :: 64 word) = 0"
  have "unat (1 + of_nat i :: 64 word) = 1 + i"
    using b unat_plus_of_nat [of 1 i] by simp
  with z show False by simp
qed

lemma copy_bytes_outside:
  "(\<forall>i<k. a \<noteq> dst + of_nat i) \<Longrightarrow> copy_bytes k dst src m a = m a"
proof (induction k arbitrary: dst src m)
  case 0
  then show ?case by simp
next
  case (Suc k)
  have "a \<noteq> dst" using Suc.prems [rule_format, of 0] by simp
  moreover have "\<forall>i<k. a \<noteq> dst + 1 + of_nat i"
    using Suc.prems [rule_format, of "Suc _"] by (simp add: add.assoc)
  ultimately show ?case using Suc.IH [of "dst + 1"] by simp
qed

lemma copy_bytes_inside:
  "k \<le> 2 ^ 64 \<Longrightarrow> (\<forall>i<k. \<forall>j<k. dst + of_nat i \<noteq> src + of_nat j) \<Longrightarrow> i < k \<Longrightarrow>
   copy_bytes k dst src m (dst + of_nat i) = m (src + of_nat i)"
proof (induction k arbitrary: dst src m i)
  case 0
  then show ?case by simp
next
  case (Suc k)
  show ?case
  proof (cases i)
    case 0
    have "\<forall>i'<k. dst \<noteq> dst + 1 + of_nat i'"
    proof (intro allI impI)
      fix i' assume "i' < k"
      with Suc.prems(1) have "Suc i' < 2 ^ 64" by simp
      then have "(1 + of_nat i' :: 64 word) \<noteq> 0" by (rule of_nat_Suc_nonzero)
      then show "dst \<noteq> dst + 1 + of_nat i'" by (simp add: add.assoc)
    qed
    then have "copy_bytes k (dst + 1) (src + 1) (m(dst := m src)) dst = (m(dst := m src)) dst"
      by (rule copy_bytes_outside)
    with 0 show ?thesis by simp
  next
    case (Suc i')
    with Suc.prems(3) have i': "i' < k" by simp
    have k: "k \<le> 2 ^ 64" using Suc.prems(1) by simp
    have sep: "\<forall>i<k. \<forall>j<k. dst + 1 + of_nat i \<noteq> src + 1 + of_nat j"
      using Suc.prems(2) [rule_format, of "Suc _" "Suc _"] by (simp add: add.assoc)
    have "dst \<noteq> src + 1 + of_nat i'"
      using Suc.prems(2) [rule_format, of 0 "Suc i'"] i' by (simp add: add.assoc)
    then have "(m(dst := m src)) (src + 1 + of_nat i') = m (src + 1 + of_nat i')" by simp
    moreover have "copy_bytes k (dst + 1) (src + 1) (m(dst := m src)) (dst + 1 + of_nat i') =
        (m(dst := m src)) (src + 1 + of_nat i')"
      by (rule Suc.IH [OF k sep i'])
    ultimately show ?thesis using Suc by (simp add: add.assoc)
  qed
qed

lemma fill_bytes_outside:
  "(\<forall>i<k. a \<noteq> dst + of_nat i) \<Longrightarrow> fill_bytes k dst c m a = m a"
proof (induction k arbitrary: dst m)
  case 0
  then show ?case by simp
next
  case (Suc k)
  have "a \<noteq> dst" using Suc.prems [rule_format, of 0] by simp
  moreover have "\<forall>i<k. a \<noteq> dst + 1 + of_nat i"
    using Suc.prems [rule_format, of "Suc _"] by (simp add: add.assoc)
  ultimately show ?case using Suc.IH [of "dst + 1"] by simp
qed

lemma fill_bytes_inside:
  "k \<le> 2 ^ 64 \<Longrightarrow> i < k \<Longrightarrow> fill_bytes k dst c m (dst + of_nat i) = c"
proof (induction k arbitrary: dst m i)
  case 0
  then show ?case by simp
next
  case (Suc k)
  show ?case
  proof (cases i)
    case 0
    have "\<forall>i'<k. dst \<noteq> dst + 1 + of_nat i'"
    proof (intro allI impI)
      fix i' assume "i' < k"
      with Suc.prems(1) have "Suc i' < 2 ^ 64" by simp
      then have "(1 + of_nat i' :: 64 word) \<noteq> 0" by (rule of_nat_Suc_nonzero)
      then show "dst \<noteq> dst + 1 + of_nat i'" by (simp add: add.assoc)
    qed
    then have "fill_bytes k (dst + 1) c (m(dst := c)) dst = (m(dst := c)) dst"
      by (rule fill_bytes_outside)
    with 0 show ?thesis by simp
  next
    case (Suc i')
    with Suc.prems(2) have i': "i' < k" by simp
    have k: "k \<le> 2 ^ 64" using Suc.prems(1) by simp
    have "fill_bytes k (dst + 1) c (m(dst := c)) (dst + 1 + of_nat i') = c"
      by (rule Suc.IH [OF k i'])
    with Suc show ?thesis by (simp add: add.assoc)
  qed
qed

lemma granted_address:
  "heap_grants n s \<Longrightarrow>
   fst (libc_sbrk (totalSize_of n) (heap_src s)) = word_of_nat (hs_brk (heap_src s))"
  by (simp add: heap_grants_def libc_sbrk_def Let_def split: if_splits)

text \<open>
  A request whose \<open>totalSize\<close> is negative as an \<open>intptr_t\<close> moves the break down
  when \<open>sbrk\<close> accepts it; that is not a grant.
\<close>

lemma shrink_is_not_grant:
  "fst (libc_sbrk (totalSize_of (- 40)) (heap_src one_object)) = 65560 \<and>
   hs_brk (snd (libc_sbrk (totalSize_of (- 40)) (heap_src one_object))) = 65536 \<and>
   \<not> heap_grants (- 40) one_object"
  by (simp add: heap_grants_def totalSize_of_def libc_sbrk_def sizeof_ObjectHeader_def Let_def
      one_object_def boot_process_def My_malloc_def allocateObject_def getMemoryFromOS_def
      initialize_def increaseMallocCalls_def ObjAllocated_def)

lemma granted_break:
  "heap_grants n s \<Longrightarrow>
   hs_brk (snd (libc_sbrk (totalSize_of n) (heap_src s))) =
     hs_brk (heap_src s) + unat (totalSize_of n)"
  by (simp add: heap_grants_def)

lemma increaseReallocCalls_store:
  "heap_src (increaseReallocCalls s) = heap_src s"
  "headers (increaseReallocCalls s) = headers s"
  "bytes (increaseReallocCalls s) = bytes s"
  by (simp_all add: increaseReallocCalls_def)

lemma live_header_below_break:
  assumes "heap_source_ok (heap_src s)" and "live p m s"
  shows "p - sizeof_ObjectHeader \<noteq> word_of_nat (hs_brk (heap_src s))"
proof
  assume eq: "p - sizeof_ObjectHeader = word_of_nat (hs_brk (heap_src s))"
  from assms(1) have "hs_brk (heap_src s) \<le> 2 ^ 47" by (simp add: heap_source_ok_def)
  then have "hs_brk (heap_src s) < 2 ^ 64"
    by (rule le_less_trans) simp
  then have u: "unat (word_of_nat (hs_brk (heap_src s)) :: 64 word) = hs_brk (heap_src s)"
    by (simp add: unat_of_nat)
  from assms(2) have p16: "16 \<le> unat p" and pm: "unat p + unat m \<le> hs_brk (heap_src s)"
    by (simp_all add: live_def sizeof_ObjectHeader_def)
  from p16 have "sizeof_ObjectHeader \<le> p"
    by (simp add: word_le_nat_alt sizeof_ObjectHeader_def)
  then have "unat (p - sizeof_ObjectHeader) = unat p - 16"
    by (simp add: unat_sub sizeof_ObjectHeader_def)
  with eq u p16 pm show False by simp
qed

lemma My_realloc_live:
  assumes ok: "heap_source_ok (heap_src s)" and lv: "live p m s" and gr: "heap_grants n s"
  shows "fst (My_realloc p n s) = word_of_nat (hs_brk (heap_src s)) + sizeof_ObjectHeader"
    and "bytes (snd (My_realloc p n s)) =
           copy_bytes (unat (min m n))
             (word_of_nat (hs_brk (heap_src s)) + sizeof_ObjectHeader) p (bytes s)"
    and "headers (snd (My_realloc p n s)) =
           (headers s)(word_of_nat (hs_brk (heap_src s)) :=
              \<lparr>flags = ObjAllocated, objSize = totalSize_of n\<rparr>)"
    and "heap_src (snd (My_realloc p n s)) = snd (libc_sbrk (totalSize_of n) (heap_src s))"
proof -
  let ?s1 = "increaseReallocCalls s"
  let ?mem = "word_of_nat (hs_brk (heap_src s)) :: 64 word"
  from lv have p0: "p \<noteq> 0" and m: "objectSize p s = m" by (simp_all add: live_def)
  note mem = granted_address [OF gr]
  note st = allocateObject_store [of n ?s1, unfolded increaseReallocCalls_store mem]
  have ne: "p - sizeof_ObjectHeader \<noteq> ?mem" by (rule live_header_below_break [OF ok lv])
  have osz: "objectSize p (snd (allocateObject n ?s1)) = m"
    using m ne by (simp add: objectSize_def st Let_def)
  have mn: "(if n < m then n else m) = min m n" by (auto simp: min_def)
  have r: "My_realloc p n s =
             (?mem + sizeof_ObjectHeader,
              memcpy (?mem + sizeof_ObjectHeader) p (min m n) (snd (allocateObject n ?s1)))"
    using p0 by (simp add: My_realloc_def Let_def case_prod_beta osz st mn freeObject_def)
  show "fst (My_realloc p n s) = ?mem + sizeof_ObjectHeader" by (simp add: r)
  show "bytes (snd (My_realloc p n s)) =
          copy_bytes (unat (min m n)) (?mem + sizeof_ObjectHeader) p (bytes s)"
    by (simp add: r memcpy_def st)
  show "headers (snd (My_realloc p n s)) =
          (headers s)(?mem := \<lparr>flags = ObjAllocated, objSize = totalSize_of n\<rparr>)"
    by (simp add: r memcpy_def st)
  show "heap_src (snd (My_realloc p n s)) = snd (libc_sbrk (totalSize_of n) (heap_src s))"
    using allocateObject_heap_src [of n ?s1]
    by (simp add: r memcpy_def increaseReallocCalls_store)
qed

lemma one_object_eval:
  "heap_src one_object = \<lparr>hs_base = 65536, hs_brk = 65560, hs_limit = 131072\<rparr>"
  "headers one_object = (\<lambda>_. \<lparr>flags = 0, objSize = 0\<rparr>)(65536 := \<lparr>flags = 1, objSize = 24\<rparr>)"
  "bytes one_object = (\<lambda>a. if 65552 \<le> a \<and> a < 65560 then ucast (a - 65551) else 0)"
  by (simp_all add: one_object_def boot_process_def proc_defs)

lemma one_object_live: "live 65552 8 one_object"
  by (simp add: live_def one_object_eval objectSize_def sizeof_ObjectHeader_def ObjAllocated_def)

lemma one_object_ok: "heap_source_ok (heap_src one_object)"
  by (simp add: heap_source_ok_def one_object_eval)

lemma increaseCallocCalls_store:
  "heap_src (increaseCallocCalls s) = heap_src s"
  "headers (increaseCallocCalls s) = headers s"
  "bytes (increaseCallocCalls s) = bytes s"
  by (simp_all add: increaseCallocCalls_def)

lemma My_calloc_store:
  "fst (My_calloc nelem elsize s) =
     fst (libc_sbrk (totalSize_of (nelem * elsize)) (heap_src s)) + sizeof_ObjectHeader"
  "objectSize (fst (My_calloc nelem elsize s)) (snd (My_calloc nelem elsize s)) =
     totalSize_of (nelem * elsize) - sizeof_ObjectHeader"
  "fst (My_calloc nelem elsize s) \<noteq> 0 \<Longrightarrow>
   bytes (snd (My_calloc nelem elsize s)) =
     fill_bytes (unat (nelem * elsize)) (fst (My_calloc nelem elsize s)) 0 (bytes s)"
proof -
  let ?s1 = "increaseCallocCalls s"
  note st = allocateObject_store [of "nelem * elsize" ?s1, unfolded increaseCallocCalls_store]
  show "fst (My_calloc nelem elsize s) =
     fst (libc_sbrk (totalSize_of (nelem * elsize)) (heap_src s)) + sizeof_ObjectHeader"
    by (simp add: My_calloc_def Let_def case_prod_beta st)
  show "objectSize (fst (My_calloc nelem elsize s)) (snd (My_calloc nelem elsize s)) =
     totalSize_of (nelem * elsize) - sizeof_ObjectHeader"
  proof -
    have "objectSize (fst (My_calloc nelem elsize s)) (snd (My_calloc nelem elsize s)) =
        objectSize (fst (allocateObject (nelem * elsize) ?s1))
          (snd (allocateObject (nelem * elsize) ?s1))"
      by (simp add: My_calloc_def Let_def case_prod_beta objectSize_def memset_def)
    then show ?thesis by (simp add: objectSize_allocateObject)
  qed
  show "bytes (snd (My_calloc nelem elsize s)) =
     fill_bytes (unat (nelem * elsize)) (fst (My_calloc nelem elsize s)) 0 (bytes s)"
    if nz: "fst (My_calloc nelem elsize s) \<noteq> 0"
  proof -
    have f: "fst (My_calloc nelem elsize s) = fst (allocateObject (nelem * elsize) ?s1)"
      by (simp add: My_calloc_def Let_def case_prod_beta)
    with nz have "fst (allocateObject (nelem * elsize) ?s1) \<noteq> 0" by simp
    then have "snd (My_calloc nelem elsize s) =
        memset (fst (allocateObject (nelem * elsize) ?s1)) 0 (nelem * elsize)
          (snd (allocateObject (nelem * elsize) ?s1))"
      by (simp add: My_calloc_def Let_def case_prod_beta)
    then show ?thesis by (simp add: f memset_def st)
  qed
qed

lemma My_calloc_heap_src:
  "heap_src (snd (My_calloc nelem elsize s)) =
     snd (libc_sbrk (totalSize_of (nelem * elsize)) (heap_src s))"
proof -
  have "heap_src (snd (My_calloc nelem elsize s)) =
      heap_src (snd (allocateObject (nelem * elsize) (increaseCallocCalls s)))"
    by (simp add: My_calloc_def Let_def case_prod_beta memset_def)
  then show ?thesis by (simp add: allocateObject_heap_src increaseCallocCalls_store)
qed

lemma granted_block_in_heap:
  assumes ok: "heap_source_ok (heap_src s)" and fit: "unat sz + 23 < 2 ^ 64"
    and gr: "heap_grants sz s"
  shows "unat (word_of_nat (hs_brk (heap_src s)) + sizeof_ObjectHeader :: 64 word) =
           hs_brk (heap_src s) + 16"
    and "hs_brk (heap_src s) + 16 + unat (totalSize_of sz - sizeof_ObjectHeader) =
           hs_brk (snd (libc_sbrk (totalSize_of sz) (heap_src s)))"
proof -
  let ?brk = "hs_brk (heap_src s)"
  from ok have small: "?brk \<le> 2 ^ 47" by (simp add: heap_source_ok_def)
  from small have "?brk < 2 ^ 64" by (rule le_less_trans) simp
  then have umem: "unat (word_of_nat ?brk :: 64 word) = ?brk" by (simp add: unat_of_nat)
  have "(2::nat) ^ 47 + 16 < 2 ^ 64" by simp
  with small umem show "unat (word_of_nat ?brk + sizeof_ObjectHeader :: 64 word) = ?brk + 16"
    using unat_plus_of_nat [of "word_of_nat ?brk" 16] by (simp add: sizeof_ObjectHeader_def)
  have lo: "16 \<le> unat (totalSize_of sz)" using totalSize_of_bounds(1) [OF fit] by simp
  then have "sizeof_ObjectHeader \<le> totalSize_of sz"
    by (simp add: word_le_nat_alt sizeof_ObjectHeader_def)
  then have "unat (totalSize_of sz - sizeof_ObjectHeader) = unat (totalSize_of sz) - 16"
    by (simp add: unat_sub sizeof_ObjectHeader_def)
  with lo granted_break [OF gr]
  show "?brk + 16 + unat (totalSize_of sz - sizeof_ObjectHeader) =
          hs_brk (snd (libc_sbrk (totalSize_of sz) (heap_src s)))"
    by simp
qed

section \<open>Zero and negative sizes in malloc.c\<close>

text \<open>
  C10. In malloc.c, a request of size \<open>\<le> 0\<close> returns \<open>NULL\<close>; the block list, the global
  base and the heap source are what they were before the call.
\<close>

theorem malloc_nonpositive_null:
  "sint sz \<le> 0 \<Longrightarrow> malloc sz s = Some (0, s)"
  by (simp add: malloc_def)

theorem malloc_nonpositive_null_witness:
  "sint (- 1 :: 32 word) \<le> 0 \<and> malloc (- 1) two_blocks = Some (0, two_blocks)"
  using malloc_nonpositive_null [of "- 1" two_blocks] by simp

section \<open>First fit\<close>

text \<open>
  C3, as the code has it. In malloc.c, for a request of positive size on a well-formed
  list: when some block of the list is free and large enough, \<open>malloc\<close> takes the first
  such block in list order, which is the one at the lowest address, marks it used and
  leaves the heap source alone; when none is, it calls \<open>request_space\<close> behind the last
  block. In MyMalloc.cc, \<open>allocateObject\<close> asks the heap source for \<open>totalSize\<close> bytes on
  every call.
\<close>

theorem malloc_first_fit:
  assumes "block_list s bs" and "0 < sint sz"
  shows "(\<forall>b. find (fits (heap s) sz) bs = Some b \<longrightarrow>
            malloc sz s = Some (b + META_SIZE, take_block b s) \<and>
            os (take_block b s) = os s \<and>
            (\<forall>a \<in> set bs. a < b \<longrightarrow> \<not> fits (heap s) sz a)) \<and>
         (find (fits (heap s) sz) bs = None \<longrightarrow> malloc sz s = grow bs sz s) \<and>
         heap_src (snd (allocateObject n t)) = snd (libc_sbrk (totalSize_of n) (heap_src t))"
proof (intro conjI allI impI ballI)
  fix b assume "find (fits (heap s) sz) bs = Some b"
  then show "malloc sz s = Some (b + META_SIZE, take_block b s)"
    using assms by (rule malloc_found [rotated 2])
next
  fix b show "os (take_block b s) = os s" by (simp add: take_block_def)
next
  fix b a assume "find (fits (heap s) sz) bs = Some b" "a \<in> set bs" "a < b"
  moreover from assms(1) have "sorted_wrt (<) bs" by (simp add: block_list_def)
  ultimately show "\<not> fits (heap s) sz a" by (rule find_lowest [rotated])
next
  assume "find (fits (heap s) sz) bs = None"
  with assms show "malloc sz s = grow bs sz s" by (rule malloc_not_found)
next
  show "heap_src (snd (allocateObject n t)) = snd (libc_sbrk (totalSize_of n) (heap_src t))"
    by (rule allocateObject_heap_src)
qed

theorem malloc_first_fit_witness:
  "block_list (free 4112 two_blocks) [4096, 4120] \<and> 0 < sint (4 :: 32 word) \<and>
   find (fits (heap (free 4112 two_blocks)) 4) [4096, 4120] = Some 4096 \<and>
   malloc 4 (free 4112 two_blocks) = Some (4112, take_block 4096 (free 4112 two_blocks))"
proof -
  have bl: "block_list (free 4112 two_blocks) [4096, 4120]"
    by (simp add: two_blocks_eval block_list_def free_def get_block_ptr_def META_SIZE_def)
  have pos: "0 < sint (4 :: 32 word)" by simp
  have fnd: "find (fits (heap (free 4112 two_blocks)) 4) [4096, 4120] = Some 4096"
    by (simp add: two_blocks_eval fits_def free_def get_block_ptr_def META_SIZE_def)
  from malloc_first_fit [OF bl pos, of 0 boot_process] fnd bl
  show ?thesis by (simp add: META_SIZE_def)
qed


text \<open>
  C3 as stated fails in MyMalloc.cc: allocate 16 bytes and release them. The released
  block has 32 bytes, at least the 24 bytes that a request of 8 bytes needs, and the
  allocator does not take it: the next request of 8 bytes goes to the heap source, and the
  break moves from 65568 to 65592.
\<close>

theorem MyMalloc_passes_over_released_block:
  "fst (My_malloc 16 boot_process) = 65552 \<and>
   objSize (headers (My_free 65552 (snd (My_malloc 16 boot_process))) 65536) = 32 \<and>
   totalSize_of 8 = 24 \<and>
   hs_brk (heap_src (My_free 65552 (snd (My_malloc 16 boot_process)))) = 65568 \<and>
   fst (My_malloc 8 (My_free 65552 (snd (My_malloc 16 boot_process)))) = 65584 \<and>
   hs_brk (heap_src (snd (My_malloc 8 (My_free 65552 (snd (My_malloc 16 boot_process)))))) = 65592"
  by (simp add: boot_process_def proc_defs totalSize_of_def)

section \<open>Reuse of a released block\<close>





section \<open>Release\<close>

text \<open>
  C2, as the code has it. Release merges nothing. In malloc.c, \<open>free\<close> of the payload of a
  block of the list sets the \<open>free\<close> field of that block; the list has the same blocks,
  every block keeps its size and its link, every other block keeps all its fields, and
  the heap source and \<open>global_base\<close> are unchanged. In MyMalloc.cc, \<open>free\<close> changes no
  header, no payload byte and not the heap source.
\<close>

theorem free_marks_without_merging:
  assumes "block_list s bs" and "b \<in> set bs"
  shows "block_list (free (b + META_SIZE) s) bs \<and>
         free_m (heap (free (b + META_SIZE) s) b) = 1 \<and>
         (\<forall>a. size_m (heap (free (b + META_SIZE) s) a) = size_m (heap s a) \<and>
              next_m (heap (free (b + META_SIZE) s) a) = next_m (heap s a)) \<and>
         (\<forall>a. a \<noteq> b \<longrightarrow> heap (free (b + META_SIZE) s) a = heap s a) \<and>
         os (free (b + META_SIZE) s) = os s \<and>
         global_base (free (b + META_SIZE) s) = global_base s \<and>
         headers (My_free q t) = headers t \<and> bytes (My_free q t) = bytes t \<and>
         heap_src (My_free q t) = heap_src t"
proof -
  from assms have nw: "unat b + unat META_SIZE < 2 ^ 32" by (simp add: block_list_def)
  note st = free_block_state [OF nw, of s]
  have "block_list (free (b + META_SIZE) s) bs" by (rule block_list_free [OF assms(1) nw])
  then show ?thesis using My_free_store [of q t] by (simp add: st)
qed

theorem free_marks_without_merging_witness:
  "block_list two_blocks [4096, 4120] \<and> (4096::addr32) \<in> set [4096, 4120] \<and>
   block_list (free 4112 two_blocks) [4096, 4120] \<and>
   free_m (heap (free 4112 two_blocks) 4096) = 1 \<and>
   size_m (heap (free 4112 two_blocks) 4096) = 8"
proof -
  have m: "(4096::addr32) \<in> set [4096, 4120]" by simp
  from free_marks_without_merging [OF two_blocks_list m, of 0 boot_process] two_blocks_list
  show ?thesis by (simp add: META_SIZE_def two_blocks_eval)
qed

text \<open>
  C2 as stated fails in malloc.c: allocate two blocks of eight bytes, release both; the
  second header starts where the first payload ends, and both are free.
\<close>

theorem adjacent_blocks_both_free:
  "ret (malloc 8 boot) = Some 4112 \<and>
   ret (malloc 8 (after (malloc 8 boot))) = Some 4136 \<and>
   block_list (free 4136 (free 4112 two_blocks)) [4096, 4120] \<and>
   \<not> no_adjacent_free (heap (free 4136 (free 4112 two_blocks))) [4096, 4120]"
  by (simp add: two_blocks_eval block_list_def boot_def run_defs)

section \<open>Failure of the heap source\<close>

text \<open>
  C1, evaluated where the heap source has no room. \<open>sbrk\<close> answers \<open>(void *) -1\<close>;
  \<open>allocateObject\<close> writes the header through that address and returns the address 16
  bytes after it, which is 15 and not \<open>NULL\<close>; \<open>malloc\<close>, \<open>calloc\<close> and \<open>realloc\<close> pass
  that pointer on.
\<close>

theorem allocateObject_dereferences_failure:
  "fst (libc_sbrk (totalSize_of 8) (heap_src full_process)) = - 1 \<and>
   fst (allocateObject 8 full_process) = 15 \<and>
   headers (snd (allocateObject 8 full_process)) (- 1) = \<lparr>flags = ObjAllocated, objSize = 24\<rparr> \<and>
   fst (My_malloc 8 full_process) \<noteq> 0 \<and>
   fst (My_calloc 2 4 full_process) \<noteq> 0 \<and>
   fst (My_realloc 0 8 full_process) \<noteq> 0"
  by (simp add: full_process_def boot_process_def proc_defs totalSize_of_def)

text \<open>
  In malloc.c, \<open>request_space\<close> does compare the answer of \<open>sbrk\<close> with
  \<open>(void *) -1\<close> and \<open>malloc\<close> returns \<open>NULL\<close> when it matches.
\<close>

lemma request_space_checks_sbrk:
  "fst (sbrk (sz + META_SIZE) (snd (sbrk 0 (os s)))) = - 1 \<Longrightarrow>
   fst (request_space last_p sz s) = 0"
  by (simp add: request_space_def Let_def case_prod_beta)

text \<open>
  The \<open>sbrk\<close> of malloc.c never gives that answer for a break that did not move: its
  result is the break before the call. With no room above the break, \<open>malloc\<close> returns
  the address 16 bytes after the unmoved break, having written a header at the break.
\<close>

lemma sbrk_returns_old_break:
  "fst (sbrk sz hs) = fst (brk 0 hs)"
  by (simp add: sbrk_def Let_def case_prod_beta)

lemma malloc_full_heap:
  "ret (malloc 8 full_boot) = Some 4112 \<and>
   hs_brk (os (after (malloc 8 full_boot))) = 4096 \<and>
   size_m (heap (after (malloc 8 full_boot)) 4096) = 8"
  by (simp add: full_boot_def boot_def run_defs)

section \<open>The size of an allocated object\<close>

text \<open>
  C7, as the code has it. When \<open>sz + sizeof(ObjectHeader) + 7\<close> does not overflow
  \<open>size_t\<close> and the heap source grants the request, \<open>objectSize\<close> of the pointer that
  \<open>allocateObject sz\<close> returns is \<open>totalSize - sizeof(ObjectHeader)\<close>, and that is at
  least \<open>sz\<close>.
\<close>

theorem size_round_trip:
  assumes "unat sz + 23 < 2 ^ 64" and "heap_grants sz s"
  shows "objectSize (fst (allocateObject sz s)) (snd (allocateObject sz s)) =
           totalSize_of sz - sizeof_ObjectHeader \<and>
         sz \<le> objectSize (fst (allocateObject sz s)) (snd (allocateObject sz s))"
  using payload_at_least_request [OF assms(1)] by (simp add: objectSize_allocateObject)

theorem size_round_trip_witness:
  "unat (13 :: 64 word) + 23 < 2 ^ 64 \<and> heap_grants 13 boot_process \<and>
   objectSize (fst (allocateObject 13 boot_process)) (snd (allocateObject 13 boot_process)) = 16 \<and>
   (13 :: 64 word) \<le> 16"
proof -
  have a: "unat (13 :: 64 word) + 23 < 2 ^ 64" by simp
  have g: "heap_grants 13 boot_process"
    by (simp add: heap_grants_def totalSize_of_def boot_process_def libc_sbrk_def
        sizeof_ObjectHeader_def Let_def)
  have t: "totalSize_of 13 - sizeof_ObjectHeader = 16"
    by (simp add: totalSize_of_def sizeof_ObjectHeader_def)
  from size_round_trip [OF a g] a g t show ?thesis by simp
qed

text \<open>
  C7 as stated fails for the largest request: \<open>sz = SIZE_MAX\<close> makes \<open>totalSize\<close> wrap to
  16, the heap source grants 16 bytes, and the object has a payload of 0 bytes.
\<close>

theorem huge_request_gets_empty_block:
  "heap_grants (- 1) boot_process \<and>
   fst (allocateObject (- 1) boot_process) = 65552 \<and>
   objectSize (fst (allocateObject (- 1) boot_process)) (snd (allocateObject (- 1) boot_process)) = 0 \<and>
   \<not> (- 1 :: 64 word) \<le> 0"
  by (simp add: heap_grants_def totalSize_of_def boot_process_def proc_defs)

section \<open>Reallocation keeps the payload\<close>

text \<open>
  C6, as the code has it. For a live allocation \<open>p\<close> with payload size \<open>m\<close> and a size
  \<open>n\<close> for which \<open>n + sizeof(ObjectHeader) + 7\<close> does not overflow \<open>size_t\<close>, when the
  heap source grants the request of \<open>realloc\<close>: the returned object starts at the old
  break, its payload holds at least \<open>min m n\<close> bytes and ends at the new break, and its
  first \<open>min m n\<close> bytes are the bytes that were at \<open>p\<close> before the call. The payload of
  \<open>p\<close> ends below the old break, so the byte-by-byte copy never reads a byte it has
  already written.
\<close>

theorem realloc_preserves_payload:
  assumes ok: "heap_source_ok (heap_src s)" and lv: "live p m s"
    and fit: "unat n + 23 < 2 ^ 64" and gr: "heap_grants n s"
  shows "unat (fst (My_realloc p n s)) = hs_brk (heap_src s) + 16 \<and>
         unat (min m n) \<le>
           unat (objectSize (fst (My_realloc p n s)) (snd (My_realloc p n s))) \<and>
         unat (fst (My_realloc p n s)) +
           unat (objectSize (fst (My_realloc p n s)) (snd (My_realloc p n s))) =
           hs_brk (heap_src (snd (My_realloc p n s))) \<and>
         (\<forall>i < unat (min m n).
            bytes (snd (My_realloc p n s)) (fst (My_realloc p n s) + of_nat i) =
            bytes s (p + of_nat i))"
proof (intro conjI allI impI)
  let ?k = "unat (min m n)"
  let ?brk = "hs_brk (heap_src s)"
  let ?dst = "word_of_nat ?brk + sizeof_ObjectHeader :: 64 word"
  note rl = My_realloc_live [OF ok lv gr]
  note inh = granted_block_in_heap [OF ok fit gr]
  have osz: "objectSize (fst (My_realloc p n s)) (snd (My_realloc p n s)) =
      totalSize_of n - sizeof_ObjectHeader"
    by (simp add: objectSize_def rl)
  show "unat (fst (My_realloc p n s)) = ?brk + 16" by (simp add: rl(1) inh(1))
  have "min m n \<le> n" by simp
  also have "n \<le> totalSize_of n - sizeof_ObjectHeader" by (rule payload_at_least_request [OF fit])
  finally show "?k \<le> unat (objectSize (fst (My_realloc p n s)) (snd (My_realloc p n s)))"
    by (simp add: osz word_le_nat_alt)
  show "unat (fst (My_realloc p n s)) +
      unat (objectSize (fst (My_realloc p n s)) (snd (My_realloc p n s))) =
      hs_brk (heap_src (snd (My_realloc p n s)))"
    using inh(2) unfolding osz by (simp add: rl(1) rl(4) inh(1))
  fix i assume i: "i < ?k"
  from ok have small: "?brk \<le> 2 ^ 47" by (simp add: heap_source_ok_def)
  have p47: "(2::nat) ^ 47 + 2 ^ 47 + 16 < 2 ^ 64" by simp
  note udst = inh(1)
  from lv have pm: "unat p + unat m \<le> ?brk" by (simp add: live_def)
  have km: "?k \<le> unat m" by (simp add: word_le_nat_alt [symmetric])
  have kb: "?k \<le> 2 ^ 64" using unsigned_less [of "min m n", where 'a = nat] by simp
  have sep: "\<forall>i<?k. \<forall>j<?k. ?dst + of_nat i \<noteq> p + of_nat j"
  proof (intro allI impI)
    fix a b assume a: "a < ?k" and b: "b < ?k"
    have "unat ?dst + a < 2 ^ 64" using udst a km pm small p47 by simp
    then have 1: "unat (?dst + of_nat a) = ?brk + 16 + a"
      using unat_plus_of_nat [of ?dst a] udst by simp
    have "unat p + b < 2 ^ 64" using b km pm small p47 by simp
    then have 2: "unat (p + of_nat b) = unat p + b" by (rule unat_plus_of_nat)
    have "unat p + b < ?brk + 16 + a" using b km pm by simp
    with 1 2 show "?dst + of_nat a \<noteq> p + of_nat b" by auto
  qed
  show "bytes (snd (My_realloc p n s)) (fst (My_realloc p n s) + of_nat i) = bytes s (p + of_nat i)"
    unfolding rl by (rule copy_bytes_inside [OF kb sep i])
qed

theorem realloc_preserves_payload_witness:
  "heap_source_ok (heap_src one_object) \<and> live 65552 8 one_object \<and>
   unat (4 :: 64 word) + 23 < 2 ^ 64 \<and>
   heap_grants 4 one_object \<and> 2 < unat (min 8 4 :: 64 word) \<and>
   fst (My_realloc 65552 4 one_object) = 65576 \<and>
   objectSize 65576 (snd (My_realloc 65552 4 one_object)) = 8 \<and>
   hs_brk (heap_src (snd (My_realloc 65552 4 one_object))) = 65584 \<and>
   bytes (snd (My_realloc 65552 4 one_object)) (65576 + 2) = 3"
proof -
  have f: "unat (4 :: 64 word) + 23 < 2 ^ 64" by simp
  have g: "heap_grants 4 one_object"
    by (simp add: heap_grants_def totalSize_of_def one_object_eval libc_sbrk_def
        sizeof_ObjectHeader_def Let_def)
  have i: "2 < unat (min 8 4 :: 64 word)" by simp
  have r: "fst (My_realloc 65552 4 one_object) = 65576"
    using My_realloc_live(1) [OF one_object_ok one_object_live g]
    by (simp add: one_object_eval sizeof_ObjectHeader_def)
  have o: "objectSize 65576 (snd (My_realloc 65552 4 one_object)) = 8"
    using My_realloc_live(3) [OF one_object_ok one_object_live g]
    by (simp add: objectSize_def one_object_eval sizeof_ObjectHeader_def totalSize_of_def)
  note th = realloc_preserves_payload [OF one_object_ok one_object_live f g, unfolded r o]
  from th have b: "hs_brk (heap_src (snd (My_realloc 65552 4 one_object))) = 65584" by simp
  from th have "\<forall>i < unat (min 8 4 :: 64 word).
      bytes (snd (My_realloc 65552 4 one_object)) (65576 + of_nat i) =
      bytes one_object (65552 + of_nat i)"
    by simp
  from this [rule_format, OF i]
  have "bytes (snd (My_realloc 65552 4 one_object)) (65576 + 2) = 3"
    by (simp add: one_object_eval)
  with one_object_ok one_object_live f g i r o b show ?thesis by simp
qed

text \<open>
  C6 as stated fails for the largest size: \<open>n = SIZE_MAX\<close> makes \<open>totalSize\<close> wrap to 16,
  the heap source grants 16 bytes, and \<open>realloc\<close> returns an object with a payload of 0
  bytes that starts at the new break; \<open>min m n\<close> is 8, so the object does not have the
  8 payload bytes that the claim speaks of, and the 8 bytes that \<open>memcpy\<close> writes lie at
  and above the break.
\<close>

theorem realloc_huge_size_empty_block:
  "heap_source_ok (heap_src one_object) \<and> live 65552 8 one_object \<and>
   heap_grants (- 1) one_object \<and>
   unat (min 8 (- 1) :: 64 word) = 8 \<and>
   fst (My_realloc 65552 (- 1) one_object) = 65576 \<and>
   objectSize 65576 (snd (My_realloc 65552 (- 1) one_object)) = 0 \<and>
   hs_brk (heap_src (snd (My_realloc 65552 (- 1) one_object))) = 65576"
proof -
  have g: "heap_grants (- 1) one_object"
    by (simp add: heap_grants_def totalSize_of_def one_object_eval libc_sbrk_def
        sizeof_ObjectHeader_def Let_def)
  have m: "unat (min 8 (- 1) :: 64 word) = 8" by (simp add: min_def)
  note rl = My_realloc_live [OF one_object_ok one_object_live g]
  have t: "totalSize_of (- 1) = 16" by (simp add: totalSize_of_def sizeof_ObjectHeader_def)
  have r: "fst (My_realloc 65552 (- 1) one_object) = 65576"
    by (simp add: rl(1) one_object_eval sizeof_ObjectHeader_def)
  have o: "objectSize 65576 (snd (My_realloc 65552 (- 1) one_object)) = 0"
    by (simp add: objectSize_def rl(3) one_object_eval sizeof_ObjectHeader_def t)
  have b: "hs_brk (heap_src (snd (My_realloc 65552 (- 1) one_object))) = 65576"
    by (simp add: rl(4) t one_object_eval libc_sbrk_def Let_def)
  from one_object_ok one_object_live g m r o b show ?thesis by simp
qed

section \<open>Reallocation to size zero\<close>

text \<open>
  C8, as the code has it. For a live allocation \<open>p\<close>, \<open>realloc(p, 0)\<close> allocates: it takes
  16 bytes from the heap source for a header with an empty payload, marks it allocated and
  returns its payload pointer, which is not \<open>NULL\<close>; the header of \<open>p\<close> stays allocated
  and no payload byte changes.
\<close>

theorem realloc_zero_allocates:
  assumes ok: "heap_source_ok (heap_src s)" and lv: "live p m s" and gr: "heap_grants 0 s"
  shows "fst (My_realloc p 0 s) = word_of_nat (hs_brk (heap_src s)) + sizeof_ObjectHeader \<and>
         fst (My_realloc p 0 s) \<noteq> 0 \<and>
         headers (snd (My_realloc p 0 s)) (word_of_nat (hs_brk (heap_src s))) =
           \<lparr>flags = ObjAllocated, objSize = 16\<rparr> \<and>
         flags (headers (snd (My_realloc p 0 s)) (p - sizeof_ObjectHeader)) = ObjAllocated \<and>
         bytes (snd (My_realloc p 0 s)) = bytes s \<and>
         hs_brk (heap_src (snd (My_realloc p 0 s))) = hs_brk (heap_src s) + 16"
proof -
  let ?brk = "hs_brk (heap_src s)"
  note rl = My_realloc_live [OF ok lv gr]
  from ok have small: "?brk \<le> 2 ^ 47" by (simp add: heap_source_ok_def)
  from small have "?brk < 2 ^ 64" by (rule le_less_trans) simp
  then have umem: "unat (word_of_nat ?brk :: 64 word) = ?brk" by (simp add: unat_of_nat)
  have "(2::nat) ^ 47 + 16 < 2 ^ 64" by simp
  with small umem have "unat (word_of_nat ?brk + sizeof_ObjectHeader :: 64 word) = ?brk + 16"
    using unat_plus_of_nat [of "word_of_nat ?brk" 16] by (simp add: sizeof_ObjectHeader_def)
  then have nz: "(word_of_nat ?brk + sizeof_ObjectHeader :: 64 word) \<noteq> 0" by auto
  have t0: "totalSize_of 0 = 16" by (simp add: totalSize_of_def sizeof_ObjectHeader_def)
  have ne: "p - sizeof_ObjectHeader \<noteq> word_of_nat ?brk" by (rule live_header_below_break [OF ok lv])
  from lv have fl: "flags (headers s (p - sizeof_ObjectHeader)) = ObjAllocated"
    by (simp add: live_def)
  have brk': "hs_brk (snd (libc_sbrk 16 (heap_src s))) = ?brk + 16"
    using gr by (simp add: heap_grants_def t0 libc_sbrk_def Let_def split: if_splits)
  show ?thesis using nz ne fl brk' by (simp add: rl t0)
qed

theorem realloc_zero_allocates_witness:
  "heap_source_ok (heap_src one_object) \<and> live 65552 8 one_object \<and>
   heap_grants 0 one_object \<and>
   fst (My_realloc 65552 0 one_object) = 65576 \<and>
   hs_brk (heap_src (snd (My_realloc 65552 0 one_object))) = 65576"
proof -
  have g: "heap_grants 0 one_object"
    by (simp add: heap_grants_def totalSize_of_def one_object_eval libc_sbrk_def
        sizeof_ObjectHeader_def Let_def)
  from realloc_zero_allocates [OF one_object_ok one_object_live g] one_object_ok one_object_live g
  show ?thesis by (simp add: one_object_eval sizeof_ObjectHeader_def)
qed

text \<open>
  C8 as stated fails: after \<open>realloc(p, 0)\<close> a new allocated header stands at the old
  break and the break has moved by 16, where \<open>free(p)\<close> leaves both as they were.
\<close>

theorem realloc_zero_is_not_release:
  "live 65552 8 one_object \<and>
   fst (My_realloc 65552 0 one_object) = 65576 \<and>
   headers (snd (My_realloc 65552 0 one_object)) 65560 = \<lparr>flags = ObjAllocated, objSize = 16\<rparr> \<and>
   hs_brk (heap_src (snd (My_realloc 65552 0 one_object))) = 65576 \<and>
   hs_brk (heap_src (My_free 65552 one_object)) = 65560 \<and>
   headers (My_free 65552 one_object) 65560 = \<lparr>flags = ObjFree, objSize = 0\<rparr>"
  using one_object_live
  by (simp add: one_object_eval My_realloc_def My_free_def allocateObject_def
      getMemoryFromOS_def libc_sbrk_def initialize_def freeObject_def objectSize_def
      increaseFreeCalls_def increaseReallocCalls_def sizeof_ObjectHeader_def ObjAllocated_def
      ObjFree_def memcpy_def Let_def)

section \<open>Zero-allocation\<close>

text \<open>
  C5, as the code has it. \<open>calloc\<close> multiplies in \<open>size_t\<close> without a test for
  overflow. When \<open>nelem * elsize\<close> with header and rounding fits \<open>size_t\<close> and the heap
  source grants the request: the pointer is not \<open>NULL\<close>, the object starts at the old
  break, \<open>objectSize\<close> is \<open>totalSize\<close> of the product minus the header, the payload
  holds at least \<open>nelem * elsize\<close> bytes and ends at the new break, and the first
  \<open>nelem * elsize\<close> bytes are zero.
\<close>

theorem calloc_without_overflow:
  assumes fit: "unat nelem * unat elsize + 23 < 2 ^ 64"
    and ok: "heap_source_ok (heap_src s)" and gr: "heap_grants (nelem * elsize) s"
  shows "objectSize (fst (My_calloc nelem elsize s)) (snd (My_calloc nelem elsize s)) =
           totalSize_of (nelem * elsize) - sizeof_ObjectHeader \<and>
         fst (My_calloc nelem elsize s) \<noteq> 0 \<and>
         unat (fst (My_calloc nelem elsize s)) = hs_brk (heap_src s) + 16 \<and>
         unat nelem * unat elsize \<le>
           unat (objectSize (fst (My_calloc nelem elsize s)) (snd (My_calloc nelem elsize s))) \<and>
         unat (fst (My_calloc nelem elsize s)) +
           unat (objectSize (fst (My_calloc nelem elsize s)) (snd (My_calloc nelem elsize s))) =
           hs_brk (heap_src (snd (My_calloc nelem elsize s))) \<and>
         (\<forall>i < unat nelem * unat elsize.
            bytes (snd (My_calloc nelem elsize s)) (fst (My_calloc nelem elsize s) + of_nat i) = 0)"
proof -
  let ?brk = "hs_brk (heap_src s)"
  let ?r = "My_calloc nelem elsize s"
  from fit have "unat nelem * unat elsize < 2 ^ 64" by simp
  then have prod: "unat (nelem * elsize) = unat nelem * unat elsize"
    by (simp add: unat_word_ariths)
  from ok have small: "?brk \<le> 2 ^ 47" by (simp add: heap_source_ok_def)
  from small have "?brk < 2 ^ 64" by (rule le_less_trans) simp
  then have umem: "unat (word_of_nat ?brk :: 64 word) = ?brk" by (simp add: unat_of_nat)
  have "(2::nat) ^ 47 + 16 < 2 ^ 64" by simp
  with small umem have "unat (word_of_nat ?brk + sizeof_ObjectHeader :: 64 word) = ?brk + 16"
    using unat_plus_of_nat [of "word_of_nat ?brk" 16] by (simp add: sizeof_ObjectHeader_def)
  then have "(word_of_nat ?brk + sizeof_ObjectHeader :: 64 word) \<noteq> 0" by auto
  then have nz: "fst ?r \<noteq> 0" by (simp add: My_calloc_store(1) granted_address [OF gr])
  have "nelem * elsize \<le> totalSize_of (nelem * elsize) - sizeof_ObjectHeader"
    by (rule payload_at_least_request) (use fit in \<open>simp add: prod\<close>)
  then have cap: "unat nelem * unat elsize \<le> unat (objectSize (fst ?r) (snd ?r))"
    by (simp add: My_calloc_store(2) word_le_nat_alt prod)
  have zero: "\<forall>i < unat nelem * unat elsize. bytes (snd ?r) (fst ?r + of_nat i) = 0"
  proof (intro allI impI)
    fix i assume "i < unat nelem * unat elsize"
    then have i: "i < unat (nelem * elsize)" by (simp add: prod)
    have k: "unat (nelem * elsize) \<le> 2 ^ 64"
      using unsigned_less [of "nelem * elsize", where 'a = nat] by simp
    show "bytes (snd ?r) (fst ?r + of_nat i) = 0"
      unfolding My_calloc_store(3) [OF nz] by (rule fill_bytes_inside [OF k i])
  qed
  have fit': "unat (nelem * elsize) + 23 < 2 ^ 64" using fit by (simp add: prod)
  note inh = granted_block_in_heap [OF ok fit' gr]
  have at: "unat (fst ?r) = ?brk + 16"
    by (simp add: My_calloc_store(1) granted_address [OF gr] inh(1))
  have "unat (fst ?r) + unat (totalSize_of (nelem * elsize) - sizeof_ObjectHeader) =
      hs_brk (heap_src (snd ?r))"
    using inh(2) by (simp add: at My_calloc_heap_src)
  then have top: "unat (fst ?r) + unat (objectSize (fst ?r) (snd ?r)) = hs_brk (heap_src (snd ?r))"
    by (simp add: My_calloc_store(2))
  from nz at cap top zero show ?thesis by (simp add: My_calloc_store(2))
qed

theorem calloc_without_overflow_witness:
  "unat (3 :: 64 word) * unat (4 :: 64 word) + 23 < 2 ^ 64 \<and>
   heap_source_ok (heap_src one_object) \<and> heap_grants (3 * 4) one_object \<and>
   fst (My_calloc 3 4 one_object) = 65576 \<and>
   objectSize (fst (My_calloc 3 4 one_object)) (snd (My_calloc 3 4 one_object)) = 16 \<and>
   hs_brk (heap_src (snd (My_calloc 3 4 one_object))) = 65592 \<and>
   bytes (snd (My_calloc 3 4 one_object)) (65576 + 11) = 0"
proof -
  have f: "unat (3 :: 64 word) * unat (4 :: 64 word) + 23 < 2 ^ 64" by simp
  have g: "heap_grants (3 * 4) one_object"
    by (simp add: heap_grants_def totalSize_of_def one_object_eval libc_sbrk_def
        sizeof_ObjectHeader_def Let_def)
  have r: "fst (My_calloc 3 4 one_object) = 65576"
    using granted_address [OF g]
    by (simp add: My_calloc_store(1) one_object_eval sizeof_ObjectHeader_def)
  have t: "totalSize_of 12 - sizeof_ObjectHeader = 16"
    by (simp add: totalSize_of_def sizeof_ObjectHeader_def)
  have i: "11 < unat (3 :: 64 word) * unat (4 :: 64 word)" by simp
  note th = calloc_without_overflow [OF f one_object_ok g]
  from th have o: "objectSize (fst (My_calloc 3 4 one_object)) (snd (My_calloc 3 4 one_object)) = 16"
    by (simp add: t)
  from th have at: "unat (fst (My_calloc 3 4 one_object)) = hs_brk (heap_src one_object) + 16"
    by blast
  from th have "unat (fst (My_calloc 3 4 one_object)) +
      unat (objectSize (fst (My_calloc 3 4 one_object)) (snd (My_calloc 3 4 one_object))) =
      hs_brk (heap_src (snd (My_calloc 3 4 one_object)))"
    by blast
  then have b: "hs_brk (heap_src (snd (My_calloc 3 4 one_object))) = 65592"
    by (simp add: o at one_object_eval)
  from th have "\<forall>i < unat (3 :: 64 word) * unat (4 :: 64 word).
      bytes (snd (My_calloc 3 4 one_object)) (fst (My_calloc 3 4 one_object) + of_nat i) = 0"
    by blast
  from this [rule_format, OF i] o b f one_object_ok g r show ?thesis by simp
qed

text \<open>
  C5 as stated fails: \<open>2^62 + 1\<close> elements of 4 bytes are \<open>2^64 + 4\<close> bytes; the product
  wraps to 4 and \<open>calloc\<close> returns an object with a payload of 8 bytes.
\<close>

theorem calloc_truncated_product:
  "unat (2 ^ 62 + 1 :: 64 word) * unat (4 :: 64 word) = 2 ^ 64 + 4 \<and>
   (2 ^ 62 + 1) * 4 = (4 :: 64 word) \<and>
   fst (My_calloc (2 ^ 62 + 1) 4 boot_process) = 65552 \<and>
   objectSize (fst (My_calloc (2 ^ 62 + 1) 4 boot_process))
     (snd (My_calloc (2 ^ 62 + 1) 4 boot_process)) = 8 \<and>
   hs_brk (heap_src (snd (My_calloc (2 ^ 62 + 1) 4 boot_process))) = 65560"
  by (simp add: boot_process_def proc_defs)

end
